theory Spec2Isabelle
  imports Main
begin

section \<open>Pipeline name generator (generate-pipeline.py)\<close>

text \<open>
  The script formats two pipeline names from three tokens and classifies a given name
  against two fixed regular expressions. A Python \<open>str\<close> is modelled as a \<open>string\<close>
  whose characters are the code points below 256; \<open>print\<close> calls are collected, per
  stream, in the order they are made. What \<open>sys.stdout\<close> can write depends on its
  encoding, which is a parameter of \<open>main\<close>.
\<close>

subsection \<open>Strings: ord, lower, join\<close>

definition ord :: "char \<Rightarrow> nat" where
  "ord c = of_char c"

definition NEWLINE :: char where
  "NEWLINE = CHR 0x0A"

text \<open>
  \<open>str.lower\<close> on the code points below 256: it moves \<open>A\<close>..\<open>Z\<close> and the accented capitals
  \<open>0xC0\<close>..\<open>0xDE\<close> (the multiplication sign \<open>0xD7\<close> apart) up by 32 and leaves the rest.
\<close>

definition lower_char :: "char \<Rightarrow> char" where
  "lower_char c =
     (if (65 \<le> ord c \<and> ord c \<le> 90) \<or> (192 \<le> ord c \<and> ord c \<le> 222 \<and> ord c \<noteq> 215)
      then char_of (ord c + 32) else c)"

definition lower :: "string \<Rightarrow> string" where
  "lower s = map lower_char s"

fun join :: "string \<Rightarrow> string list \<Rightarrow> string" where
  "join sep [] = []"
| "join sep [x] = x"
| "join sep (x # y # ys) = x @ sep @ join sep (y # ys)"

subsection \<open>Regular expressions and \<open>re.match\<close>\<close>

text \<open>
  The fragment of Python's \<open>re\<close> syntax the script uses: literal characters, character
  sets given by ranges (\<open>[a-z0-9-]\<close>), concatenation, alternation (\<open>|\<close>) and \<open>+\<close>.
  \<open>Never\<close> and \<open>Eps\<close> only arise while matching.
\<close>

datatype regex =
    Never
  | Eps
  | Lit char
  | In "(char \<times> char) list"
  | Branch regex regex
  | Cat regex regex
  | Rep1 regex

fun in_class :: "(char \<times> char) list \<Rightarrow> char \<Rightarrow> bool" where
  "in_class [] c = False"
| "in_class ((lo, hi) # rs) c = ((ord lo \<le> ord c \<and> ord c \<le> ord hi) \<or> in_class rs c)"

fun lit :: "string \<Rightarrow> regex" where
  "lit [] = Eps"
| "lit (c # cs) = Cat (Lit c) (lit cs)"

fun nullable :: "regex \<Rightarrow> bool" where
  "nullable Never = False"
| "nullable Eps = True"
| "nullable (Lit c) = False"
| "nullable (In rs) = False"
| "nullable (Branch r s) = (nullable r \<or> nullable s)"
| "nullable (Cat r s) = (nullable r \<and> nullable s)"
| "nullable (Rep1 r) = nullable r"

text \<open>\<open>after c r\<close> matches what is left of a match of \<open>r\<close> once the character \<open>c\<close> is consumed.\<close>

fun after :: "char \<Rightarrow> regex \<Rightarrow> regex" where
  "after c Never = Never"
| "after c Eps = Never"
| "after c (Lit d) = (if c = d then Eps else Never)"
| "after c (In rs) = (if in_class rs c then Eps else Never)"
| "after c (Branch r s) = Branch (after c r) (after c s)"
| "after c (Cat r s) =
     (if nullable r then Branch (Cat (after c r) s) (after c s) else Cat (after c r) s)"
| "after c (Rep1 r) = Cat (after c r) (Branch Eps (Rep1 r))"

fun consume :: "regex \<Rightarrow> string \<Rightarrow> regex" where
  "consume r [] = r"
| "consume r (c # cs) = consume (after c r) cs"

text \<open>The body of a pattern matches the whole of \<open>s\<close>.\<close>

definition full_match :: "regex \<Rightarrow> string \<Rightarrow> bool" where
  "full_match r s = nullable (consume r s)"

text \<open>
  A compiled pattern of the form \<open>^body$\<close>. Without \<open>re.MULTILINE\<close>, \<open>$\<close> holds at the end
  of the string and also just before a newline that is the last character, so
  \<open>re_match\<close> (is the result of \<open>pattern.match(s)\<close> a match object?) accepts the body on
  the whole string or on the string without its final newline.
\<close>

datatype pattern = Anchored regex

fun re_match :: "pattern \<Rightarrow> string \<Rightarrow> bool" where
  "re_match (Anchored body) s =
     (full_match body s \<or> (s \<noteq> [] \<and> last s = NEWLINE \<and> full_match body (butlast s)))"

subsection \<open>Constants of the script\<close>

definition SUPPORTED_VCS :: "string list" where
  "SUPPORTED_VCS = [''github'', ''gitlab'', ''bitbucket'']"

definition BUILD_PATTERN :: string where
  "BUILD_PATTERN = ''{vcs}-{language}-{framework}-app-build-default''"

definition REVIEW_PATTERN :: string where
  "REVIEW_PATTERN = ''{vcs}-{language}-{framework}-app-review''"

text \<open>The set \<open>[a-z0-9]\<close> and the segment \<open>[a-z0-9]+\<close>.\<close>

definition ALNUM :: "(char \<times> char) list" where
  "ALNUM = [(CHR ''a'', CHR ''z''), (CHR ''0'', CHR ''9'')]"

definition SEGMENT :: regex where
  "SEGMENT = Rep1 (In ALNUM)"

definition BUILD_BODY :: regex where
  "BUILD_BODY =
     Cat SEGMENT (Cat (Lit CHR ''-'') (Cat SEGMENT (Cat (Lit CHR ''-'') (Cat SEGMENT
       (Cat (lit ''-app-build-'') (Branch (lit ''default'') (lit ''edp'')))))))"

definition REVIEW_BODY :: regex where
  "REVIEW_BODY =
     Cat SEGMENT (Cat (Lit CHR ''-'') (Cat SEGMENT (Cat (Lit CHR ''-'') (Cat SEGMENT
       (lit ''-app-review'')))))"

definition BUILD_REGEX :: pattern where
  "BUILD_REGEX = Anchored BUILD_BODY"

definition REVIEW_REGEX :: pattern where
  "REVIEW_REGEX = Anchored REVIEW_BODY"

text \<open>The set \<open>[a-z0-9-]\<close> of the pattern written inline in \<open>validate_component\<close>.\<close>

definition COMPONENT_CLASS :: "(char \<times> char) list" where
  "COMPONENT_CLASS = [(CHR ''a'', CHR ''z''), (CHR ''0'', CHR ''9''), (CHR ''-'', CHR ''-'')]"

subsection \<open>Output\<close>

text \<open>
  One \<open>printed\<close> value per \<open>print\<close> call: its text, without the line end \<open>print\<close> adds.
  \<open>Glyph n t\<close> is a text that starts with the character of code point \<open>n\<close>, which lies
  outside the range of \<open>char\<close>, and goes on with \<open>t\<close>.
\<close>

datatype printed = Plain string | Glyph nat string

text \<open>
  The encoding of \<open>sys.stdout\<close>, as the set of code points it writes without raising.
  \<open>print\<close> raises \<open>UnicodeEncodeError\<close> on a text with a character outside that set.
  \<open>sys.stderr\<close> never does: its error handler is \<open>backslashreplace\<close>.
\<close>

type_synonym encoding = "nat \<Rightarrow> bool"

fun writable :: "encoding \<Rightarrow> printed \<Rightarrow> bool" where
  "writable enc (Plain t) = list_all (\<lambda>c. enc (ord c)) t"
| "writable enc (Glyph n t) = (enc n \<and> list_all (\<lambda>c. enc (ord c)) t)"

text \<open>Two encodings: \<open>ascii\<close>, and \<open>utf-8\<close> (every code point but the surrogates).\<close>

definition ASCII :: encoding where
  "ASCII n = (n < 128)"

definition UTF_8 :: encoding where
  "UTF_8 n = (n < 0x110000 \<and> \<not> (0xD800 \<le> n \<and> n \<le> 0xDFFF))"

text \<open>An encoding that writes every ASCII character, and a text made of such characters.\<close>

definition encodes_ascii :: "encoding \<Rightarrow> bool" where
  "encodes_ascii enc = list_all enc [0..<128]"

definition is_ascii :: "string \<Rightarrow> bool" where
  "is_ascii t = list_all (\<lambda>c. ord c < 128) t"

subsection \<open>validate_component, validate_vcs\<close>

text \<open>Both return the boolean together with what they print on the error stream.\<close>

definition validate_component :: "string \<Rightarrow> string \<Rightarrow> bool \<times> printed list" where
  "validate_component component component_name =
     (if component = [] then
        (False, [Plain (''Error: '' @ component_name @ '' cannot be empty'')])
      else if \<not> re_match (Anchored (Rep1 (In COMPONENT_CLASS))) component then
        (False, [Plain (''Error: '' @ component_name
                   @ '' must contain only lowercase letters, numbers, and hyphens. Got: ''
                   @ component)])
      else (True, []))"

definition vcs_warning :: "string \<Rightarrow> printed" where
  "vcs_warning vcs =
     Plain (''Warning: VCS '' @ [CHR 0x27] @ vcs @ [CHR 0x27]
            @ '' is not in the list of commonly supported providers: ''
            @ join '', '' SUPPORTED_VCS @ ''. Proceeding anyway.'')"

definition validate_vcs :: "string \<Rightarrow> bool \<times> printed list" where
  "validate_vcs vcs =
     (let warned = (if vcs \<notin> set SUPPORTED_VCS then [vcs_warning vcs] else []);
          (ok, errs) = validate_component vcs ''VCS''
      in (ok, warned @ errs))"

subsection \<open>validate_pipeline_name\<close>

definition validate_pipeline_name :: "string \<Rightarrow> bool \<times> string option" where
  "validate_pipeline_name name =
     (if re_match BUILD_REGEX name then (True, Some ''build'')
      else if re_match REVIEW_REGEX name then (True, Some ''review'')
      else (False, None))"

subsection \<open>generate_pipeline_names\<close>

datatype error = KeyError string | ValueError string | UnicodeEncodeError

text \<open>
  \<open>str.format\<close> with keyword arguments, for templates whose replacement fields are plain
  names: \<open>{{\<close> and \<open>}}\<close> are literal braces, \<open>{name}\<close> is replaced by the argument of that
  name, and the text put in is not scanned again. The second argument is the field name
  read so far while inside a field.
\<close>

fun format_from :: "string \<Rightarrow> string option \<Rightarrow> (string \<times> string) list \<Rightarrow> error + string" where
  "format_from [] None kwargs = Inr []"
| "format_from [] (Some field) kwargs =
     Inl (ValueError ''expected } before end of string'')"
| "format_from (c # cs) None kwargs =
     (if c = CHR ''{'' then
        (case cs of
           [] \<Rightarrow> Inl (ValueError ''Single { encountered in format string'')
         | d # ds \<Rightarrow>
             if d = CHR ''{'' then map_sum id ((#) c) (format_from ds None kwargs)
             else format_from cs (Some []) kwargs)
      else if c = CHR ''}'' then
        (case cs of
           [] \<Rightarrow> Inl (ValueError ''Single } encountered in format string'')
         | d # ds \<Rightarrow>
             if d = CHR ''}'' then map_sum id ((#) c) (format_from ds None kwargs)
             else Inl (ValueError ''Single } encountered in format string''))
      else map_sum id ((#) c) (format_from cs None kwargs))"
| "format_from (c # cs) (Some field) kwargs =
     (if c = CHR ''}'' then
        (case map_of kwargs field of
           None \<Rightarrow> Inl (KeyError field)
         | Some v \<Rightarrow> map_sum id ((@) v) (format_from cs None kwargs))
      else format_from cs (Some (field @ [c])) kwargs)"

definition format :: "string \<Rightarrow> (string \<times> string) list \<Rightarrow> error + string" where
  "format template kwargs = format_from template None kwargs"

definition generate_pipeline_names :: "string \<Rightarrow> string \<Rightarrow> string \<Rightarrow> error + (string \<times> string)" where
  "generate_pipeline_names vcs language framework =
     (case format BUILD_PATTERN
             [(''vcs'', lower vcs), (''language'', lower language), (''framework'', lower framework)] of
        Inl e \<Rightarrow> Inl e
      | Inr build_name \<Rightarrow>
          (case format REVIEW_PATTERN
                  [(''vcs'', lower vcs), (''language'', lower language), (''framework'', lower framework)] of
             Inl e \<Rightarrow> Inl e
           | Inr review_name \<Rightarrow> Inr (build_name, review_name)))"

subsection \<open>main\<close>

text \<open>The module docstring, printed when no argument is given.\<close>

definition DOC :: string where
  "DOC = join [NEWLINE]
     [[],
      ''Pipeline Name Generator for EDP-Tekton'',
      [],
      ''This script generates valid pipeline names following KRCI naming conventions.'',
      ''It validates inputs and produces both build and review pipeline names.'',
      [],
      ''Usage:'',
      ''    python generate-pipeline.py <vcs> <language> <framework>'',
      ''    python generate-pipeline.py --validate <pipeline-name>'',
      [],
      ''Examples:'',
      ''    python generate-pipeline.py github java springboot'',
      ''    python generate-pipeline.py gitlab python fastapi'',
      ''    python generate-pipeline.py --validate github-java-springboot-app-build-default'',
      []]"

text \<open>
  How a run ends: the exit code (\<open>sys.exit(n)\<close>, or 0 when \<open>main\<close> returns) and what was
  printed on each stream.
\<close>

record outcome =
  exit_code :: nat
  stdout :: "printed list"
  stderr :: "printed list"

definition ONBOARDING :: string where
  "ONBOARDING = ''  ./charts/pipelines-library/scripts/onboarding-component.sh ''"

text \<open>
  A path through \<open>main\<close> that makes the prints of \<open>r\<close> and ends with its exit code. When
  \<open>sys.stdout\<close> cannot write one of the texts, that \<open>print\<close> raises and nothing in the
  script catches it.
\<close>

definition printing :: "encoding \<Rightarrow> outcome \<Rightarrow> error + outcome" where
  "printing enc r = (if list_all (writable enc) (stdout r) then Inr r else Inl UnicodeEncodeError)"

text \<open>The exit status of the process: an uncaught exception ends it with status 1.\<close>

definition exit_status :: "error + outcome \<Rightarrow> nat" where
  "exit_status res = (case res of Inl e \<Rightarrow> 1 | Inr r \<Rightarrow> exit_code r)"

text \<open>
  \<open>main enc argv\<close>, with \<open>argv\<close> standing for \<open>sys.argv\<close> (the script's name first) and
  \<open>enc\<close> for the encoding of \<open>sys.stdout\<close>. \<open>Inl\<close> is an exception that leaves \<open>main\<close>
  uncaught.
\<close>

definition main :: "encoding \<Rightarrow> string list \<Rightarrow> error + outcome" where
  "main enc argv =
     (if length argv < 2 then
        printing enc \<lparr>exit_code = 1, stdout = [Plain DOC], stderr = []\<rparr>
      else if argv ! 1 = ''--validate'' then
        (if length argv \<noteq> 3 then
           printing enc \<lparr>exit_code = 1,
                stdout = [Plain ''Usage: generate-pipeline.py --validate <pipeline-name>''],
                stderr = []\<rparr>
         else
           (let pipeline_name = argv ! 2;
                (is_valid, pipeline_type) = validate_pipeline_name pipeline_name
            in if is_valid then
                 printing enc \<lparr>exit_code = 0,
                      stdout = [Glyph 0x2713
                        ('' Valid '' @ (case pipeline_type of Some t \<Rightarrow> t | None \<Rightarrow> ''None'')
                         @ '' pipeline name: '' @ pipeline_name)],
                      stderr = []\<rparr>
               else
                 printing enc \<lparr>exit_code = 1,
                      stdout = [],
                      stderr =
                        [Glyph 0x2717 ('' Invalid pipeline name: '' @ pipeline_name),
                         Plain ([NEWLINE] @ ''Expected formats:''),
                         Plain ''  Build:  <vcs>-<language>-<framework>-app-build-default'',
                         Plain ''  Review: <vcs>-<language>-<framework>-app-review'']\<rparr>))
      else if length argv \<noteq> 4 then
        printing enc \<lparr>exit_code = 1,
             stdout = [Plain ''Usage: generate-pipeline.py <vcs> <language> <framework>''],
             stderr = []\<rparr>
      else
        (let vcs = argv ! 1; language = argv ! 2; framework = argv ! 3;
             (ok_vcs, err_vcs) = validate_vcs vcs
         in if \<not> ok_vcs then printing enc \<lparr>exit_code = 1, stdout = [], stderr = err_vcs\<rparr>
            else
              (let (ok_language, err_language) = validate_component language ''language''
               in if \<not> ok_language then
                    printing enc \<lparr>exit_code = 1, stdout = [], stderr = err_vcs @ err_language\<rparr>
                  else
                    (let (ok_framework, err_framework) = validate_component framework ''framework''
                     in if \<not> ok_framework then
                          printing enc \<lparr>exit_code = 1, stdout = [],
                               stderr = err_vcs @ err_language @ err_framework\<rparr>
                        else
                          (case generate_pipeline_names vcs language framework of
                             Inl e \<Rightarrow> Inl e
                           | Inr (build_name, review_name) \<Rightarrow>
                               printing enc \<lparr>exit_code = 0,
                                    stdout =
                                      [Plain ''Generated pipeline names:'',
                                       Plain (''  Build:  '' @ build_name),
                                       Plain (''  Review: '' @ review_name),
                                       Plain [],
                                       Plain ''Onboarding commands:'',
                                       Plain (ONBOARDING @ ''--type build-pipeline -n ''
                                              @ build_name @ '' --vcs '' @ vcs),
                                       Plain (ONBOARDING @ ''--type review-pipeline -n ''
                                              @ review_name @ '' --vcs '' @ vcs)],
                                    stderr = err_vcs @ err_language @ err_framework\<rparr>)))))"

subsection \<open>The naming rules as the specification words them\<close>

text \<open>
  A component token is non-empty and made of lowercase letters, digits and hyphens; a
  segment of a pipeline name is non-empty and made of lowercase letters and digits.
\<close>

definition spec_alnum :: "char \<Rightarrow> bool" where
  "spec_alnum c = (c \<in> set ''abcdefghijklmnopqrstuvwxyz0123456789'')"

definition spec_segment :: "string \<Rightarrow> bool" where
  "spec_segment s = (s \<noteq> [] \<and> list_all spec_alnum s)"

definition spec_component :: "string \<Rightarrow> bool" where
  "spec_component s = (s \<noteq> [] \<and> list_all (\<lambda>c. spec_alnum c \<or> c = CHR ''-'') s)"

text \<open>A name matches a pattern when the pattern describes the whole of it.\<close>

definition spec_build_name :: "string \<Rightarrow> bool" where
  "spec_build_name name =
     (\<exists>v l f suffix. spec_segment v \<and> spec_segment l \<and> spec_segment f
        \<and> (suffix = ''default'' \<or> suffix = ''edp'')
        \<and> name = v @ ''-'' @ l @ ''-'' @ f @ ''-app-build-'' @ suffix)"

definition spec_review_name :: "string \<Rightarrow> bool" where
  "spec_review_name name =
     (\<exists>v l f. spec_segment v \<and> spec_segment l \<and> spec_segment f
        \<and> name = v @ ''-'' @ l @ ''-'' @ f @ ''-app-review'')"

subsection \<open>The language of a regular expression\<close>

inductive_set repeated :: "string set \<Rightarrow> string set" for A :: "string set" where
  once: "u \<in> A \<Longrightarrow> u \<in> repeated A"
| more: "u \<in> A \<Longrightarrow> v \<in> repeated A \<Longrightarrow> u @ v \<in> repeated A"

fun lang :: "regex \<Rightarrow> string set" where
  "lang Never = {}"
| "lang Eps = {[]}"
| "lang (Lit c) = {[c]}"
| "lang (In rs) = {[c] | c. in_class rs c}"
| "lang (Branch r s) = lang r \<union> lang s"
| "lang (Cat r s) = {u @ v | u v. u \<in> lang r \<and> v \<in> lang s}"
| "lang (Rep1 r) = repeated (lang r)"

section \<open>Properties\<close>

subsection \<open>Matching decides membership in the language\<close>

lemma repeated_Nil_D: "x \<in> repeated A \<Longrightarrow> x = [] \<Longrightarrow> [] \<in> A"
  by (induction rule: repeated.induct) auto

lemma repeated_Nil: "[] \<in> repeated A \<longleftrightarrow> [] \<in> A"
  using repeated_Nil_D [of "[]" A] by (auto intro: repeated.once)

lemma nullable_lang: "nullable r \<longleftrightarrow> [] \<in> lang r"
  by (induction r) (auto simp: repeated_Nil)

lemma repeated_Cons_split:
  assumes "x \<in> repeated A" and "x = c # w"
  shows "\<exists>u v. w = u @ v \<and> c # u \<in> A \<and> (v = [] \<or> v \<in> repeated A)"
  using assms
proof (induction arbitrary: w rule: repeated.induct)
  case (once u)
  then show ?case by auto
next
  case (more u v)
  show ?case
  proof (cases u)
    case Nil
    with more show ?thesis by simp
  next
    case (Cons a u')
    with more.prems have "w = u' @ v" and "a = c" by simp_all
    with Cons more.hyps show ?thesis by blast
  qed
qed

lemma repeated_Cons_iff:
  "c # w \<in> repeated A \<longleftrightarrow> (\<exists>u v. w = u @ v \<and> c # u \<in> A \<and> (v = [] \<or> v \<in> repeated A))"
proof
  assume "c # w \<in> repeated A"
  then show "\<exists>u v. w = u @ v \<and> c # u \<in> A \<and> (v = [] \<or> v \<in> repeated A)"
    by (rule repeated_Cons_split) simp
next
  assume "\<exists>u v. w = u @ v \<and> c # u \<in> A \<and> (v = [] \<or> v \<in> repeated A)"
  then obtain u v where w: "w = u @ v" and u: "c # u \<in> A" and v: "v = [] \<or> v \<in> repeated A"
    by blast
  from v show "c # w \<in> repeated A"
  proof
    assume "v = []" with w u show ?thesis by (simp add: repeated.once)
  next
    assume "v \<in> repeated A"
    with u have "(c # u) @ v \<in> repeated A" by (rule repeated.more)
    with w show ?thesis by simp
  qed
qed

lemma lang_after: "w \<in> lang (after c r) \<longleftrightarrow> c # w \<in> lang r"
proof (induction r arbitrary: w)
  case (Cat r s)
  show ?case
  proof
    assume "w \<in> lang (after c (Cat r s))"
    then show "c # w \<in> lang (Cat r s)"
      using Cat by (auto simp: nullable_lang split: if_splits) (metis append_Cons append_Nil)+
  next
    assume "c # w \<in> lang (Cat r s)"
    then obtain u v where uv: "c # w = u @ v" "u \<in> lang r" "v \<in> lang s" by auto
    show "w \<in> lang (after c (Cat r s))"
    proof (cases u)
      case Nil
      with uv Cat show ?thesis by (auto simp: nullable_lang)
    next
      case (Cons a u')
      with uv Cat show ?thesis by (auto simp: nullable_lang)
    qed
  qed
next
  case (Rep1 r)
  show ?case
    using Rep1 by (auto simp: repeated_Cons_iff)
qed auto

lemma lang_consume: "w \<in> lang (consume r s) \<longleftrightarrow> s @ w \<in> lang r"
  by (induction s arbitrary: r) (simp_all add: lang_after)

lemma full_match_lang: "full_match r s \<longleftrightarrow> s \<in> lang r"
  by (simp add: full_match_def nullable_lang lang_consume)

lemma lang_lit: "lang (lit s) = {s}"
  by (induction s) auto

lemma repeated_class:
  "s \<in> repeated {[c] | c. P c} \<longleftrightarrow> s \<noteq> [] \<and> list_all P s"
proof
  assume "s \<in> repeated {[c] | c. P c}"
  then show "s \<noteq> [] \<and> list_all P s"
    by (induction rule: repeated.induct) auto
next
  assume "s \<noteq> [] \<and> list_all P s"
  then show "s \<in> repeated {[c] | c. P c}"
  proof (induction s)
    case Nil
    then show ?case by simp
  next
    case (Cons a s)
    show ?case
    proof (cases s)
      case Nil
      with Cons.prems show ?thesis by (auto intro: repeated.once)
    next
      case (Cons b t)
      with Cons.prems Cons.IH have "s \<in> repeated {[c] | c. P c}" and "P a" by auto
      then have "[a] @ s \<in> repeated {[c] | c. P c}" by (intro repeated.more) auto
      then show ?thesis by simp
    qed
  qed
qed

lemma lang_Rep1_In: "s \<in> lang (Rep1 (In rs)) \<longleftrightarrow> s \<noteq> [] \<and> list_all (in_class rs) s"
  by (simp add: repeated_class)

subsection \<open>Characters, character sets, templates\<close>

lemma ord_char_of: "n < 256 \<Longrightarrow> ord (char_of n) = n"
  by (simp add: ord_def)

lemma ord_inject: "ord c = ord d \<longleftrightarrow> c = d"
  by (simp add: ord_def)

lemma in_range_enum:
  "lo \<le> ord c \<and> ord c \<le> hi \<longleftrightarrow> c \<in> char_of ` {lo..hi}" if "hi < 256"
proof
  assume a: "lo \<le> ord c \<and> ord c \<le> hi"
  have "c = char_of (ord c)" by (simp add: ord_def)
  with a show "c \<in> char_of ` {lo..hi}" by (metis atLeastAtMost_iff imageI)
next
  assume "c \<in> char_of ` {lo..hi}"
  then obtain n where "c = char_of n" "lo \<le> n" "n \<le> hi" by auto
  with that show "lo \<le> ord c \<and> ord c \<le> hi" by (simp add: ord_char_of)
qed

lemma letters_enum: "map char_of [97..<123::nat] = ''abcdefghijklmnopqrstuvwxyz''"
  by code_simp

lemma digits_enum: "map char_of [48..<58::nat] = ''0123456789''"
  by code_simp

lemma in_class_ALNUM: "in_class ALNUM c \<longleftrightarrow> spec_alnum c"
proof -
  have "{97..122::nat} = {97..<123}" and "{48..57::nat} = {48..<58}" by auto
  then have a: "{97..122::nat} = set [97..<123]" and d: "{48..57::nat} = set [48..<58]"
    by (simp_all only: set_upt)
  have "in_class ALNUM c \<longleftrightarrow> c \<in> char_of ` {97..122::nat} \<or> c \<in> char_of ` {48..57::nat}"
    by (simp add: ALNUM_def ord_def in_range_enum [unfolded ord_def, symmetric])
  also have "\<dots> \<longleftrightarrow> c \<in> set (map char_of [97..<123::nat]) \<or> c \<in> set (map char_of [48..<58::nat])"
    unfolding a d by (simp only: set_map)
  also have "\<dots> \<longleftrightarrow> spec_alnum c"
    unfolding letters_enum digits_enum spec_alnum_def by auto
  finally show ?thesis .
qed

lemma in_class_COMPONENT: "in_class COMPONENT_CLASS c \<longleftrightarrow> spec_alnum c \<or> c = CHR ''-''"
proof -
  have "in_class COMPONENT_CLASS c \<longleftrightarrow> in_class ALNUM c \<or> ord c = ord CHR ''-''"
    by (auto simp: COMPONENT_CLASS_def ALNUM_def)
  then show ?thesis by (simp add: in_class_ALNUM ord_inject)
qed

lemma format_build:
  "format BUILD_PATTERN [(''vcs'', v), (''language'', l), (''framework'', f)]
     = Inr (v @ ''-'' @ l @ ''-'' @ f @ ''-app-build-default'')"
  by (simp add: format_def BUILD_PATTERN_def)

lemma format_review:
  "format REVIEW_PATTERN [(''vcs'', v), (''language'', l), (''framework'', f)]
     = Inr (v @ ''-'' @ l @ ''-'' @ f @ ''-app-review'')"
  by (simp add: format_def REVIEW_PATTERN_def)

lemma lower_char_fixed: "spec_alnum c \<or> c = CHR ''-'' \<Longrightarrow> lower_char c = c"
  by (auto simp: spec_alnum_def lower_char_def ord_def)

lemma lower_char_hyphen: "lower_char c = CHR ''-'' \<longleftrightarrow> c = CHR ''-''"
proof
  assume h: "lower_char c = CHR ''-''"
  show "c = CHR ''-''"
  proof (rule ccontr)
    assume n: "c \<noteq> CHR ''-''"
    with h have up: "(65 \<le> ord c \<and> ord c \<le> 90) \<or> (192 \<le> ord c \<and> ord c \<le> 222 \<and> ord c \<noteq> 215)"
      and eq: "char_of (ord c + 32) = CHR ''-''"
      by (auto simp: lower_char_def split: if_splits)
    from up have "ord c + 32 < 256" by auto
    then have "ord (char_of (ord c + 32)) = ord c + 32" by (rule ord_char_of)
    with eq have "ord c + 32 = ord CHR ''-''" by simp
    with up show False by (simp add: ord_def)
  qed
next
  assume "c = CHR ''-''" then show "lower_char c = CHR ''-''"
    by (simp add: lower_char_def ord_def)
qed

subsection \<open>The languages of the three patterns\<close>

lemma lang_SEGMENT: "s \<in> lang SEGMENT \<longleftrightarrow> spec_segment s"
proof -
  have "in_class ALNUM = spec_alnum" by (rule ext) (rule in_class_ALNUM)
  then show ?thesis by (simp add: SEGMENT_def spec_segment_def repeated_class)
qed

lemma lang_component: "s \<in> lang (Rep1 (In COMPONENT_CLASS)) \<longleftrightarrow> spec_component s"
proof -
  have "in_class COMPONENT_CLASS = (\<lambda>c. spec_alnum c \<or> c = CHR ''-'')"
    by (rule ext) (rule in_class_COMPONENT)
  then show ?thesis by (simp add: spec_component_def repeated_class)
qed

lemma lang_Cat_Lit: "s \<in> lang (Cat (Lit c) r) \<longleftrightarrow> (\<exists>t. s = c # t \<and> t \<in> lang r)"
  by auto

lemma lang_Cat_SEGMENT:
  "s \<in> lang (Cat SEGMENT r) \<longleftrightarrow> (\<exists>u t. s = u @ t \<and> spec_segment u \<and> t \<in> lang r)"
proof -
  have "s \<in> lang (Cat SEGMENT r) \<longleftrightarrow> (\<exists>u t. s = u @ t \<and> u \<in> lang SEGMENT \<and> t \<in> lang r)"
    by auto
  then show ?thesis by (simp only: lang_SEGMENT)
qed

lemma lang_three_segments:
  "s \<in> lang (Cat SEGMENT (Cat (Lit CHR ''-'') (Cat SEGMENT (Cat (Lit CHR ''-'') (Cat SEGMENT r)))))
     \<longleftrightarrow> (\<exists>v l f t. spec_segment v \<and> spec_segment l \<and> spec_segment f \<and> t \<in> lang r
            \<and> s = v @ ''-'' @ l @ ''-'' @ f @ t)"
  (is "?L \<longleftrightarrow> ?R")
proof
  assume ?L
  then obtain v t1 where 1: "s = v @ t1" "spec_segment v"
    and "t1 \<in> lang (Cat (Lit CHR ''-'') (Cat SEGMENT (Cat (Lit CHR ''-'') (Cat SEGMENT r))))"
    unfolding lang_Cat_SEGMENT [of s] by blast
  then obtain t2 where 2: "t1 = CHR ''-'' # t2"
    and "t2 \<in> lang (Cat SEGMENT (Cat (Lit CHR ''-'') (Cat SEGMENT r)))"
    unfolding lang_Cat_Lit [of t1] by blast
  then obtain l t3 where 3: "t2 = l @ t3" "spec_segment l"
    and "t3 \<in> lang (Cat (Lit CHR ''-'') (Cat SEGMENT r))"
    unfolding lang_Cat_SEGMENT [of t2] by blast
  then obtain t4 where 4: "t3 = CHR ''-'' # t4" and "t4 \<in> lang (Cat SEGMENT r)"
    unfolding lang_Cat_Lit [of t3] by blast
  then obtain f t where 5: "t4 = f @ t" "spec_segment f" "t \<in> lang r"
    unfolding lang_Cat_SEGMENT [of t4] by blast
  have "s = v @ ''-'' @ l @ ''-'' @ f @ t"
    using 1 2 3 4 5 by simp
  with 1 3 5 show ?R by blast
next
  assume ?R
  then obtain v l f t where seg: "spec_segment v" "spec_segment l" "spec_segment f"
    and t: "t \<in> lang r" and s: "s = v @ ''-'' @ l @ ''-'' @ f @ t"
    by blast
  from seg(3) t have "f @ t \<in> lang (Cat SEGMENT r)"
    unfolding lang_Cat_SEGMENT by blast
  then have "CHR ''-'' # f @ t \<in> lang (Cat (Lit CHR ''-'') (Cat SEGMENT r))"
    unfolding lang_Cat_Lit by blast
  with seg(2) have "l @ CHR ''-'' # f @ t \<in> lang (Cat SEGMENT (Cat (Lit CHR ''-'') (Cat SEGMENT r)))"
    unfolding lang_Cat_SEGMENT [of "l @ CHR ''-'' # f @ t"] by blast
  then have "CHR ''-'' # l @ CHR ''-'' # f @ t
      \<in> lang (Cat (Lit CHR ''-'') (Cat SEGMENT (Cat (Lit CHR ''-'') (Cat SEGMENT r))))"
    unfolding lang_Cat_Lit [of "CHR ''-'' # l @ CHR ''-'' # f @ t"] by blast
  with seg(1) have "v @ CHR ''-'' # l @ CHR ''-'' # f @ t
      \<in> lang (Cat SEGMENT (Cat (Lit CHR ''-'') (Cat SEGMENT (Cat (Lit CHR ''-'') (Cat SEGMENT r)))))"
    unfolding lang_Cat_SEGMENT [of "v @ CHR ''-'' # l @ CHR ''-'' # f @ t"] by blast
  with s show ?L by simp
qed

lemma lang_BUILD_BODY: "s \<in> lang BUILD_BODY \<longleftrightarrow> spec_build_name s"
proof -
  have tail: "t \<in> lang (Cat (lit ''-app-build-'') (Branch (lit ''default'') (lit ''edp'')))
      \<longleftrightarrow> (\<exists>suffix. (suffix = ''default'' \<or> suffix = ''edp'') \<and> t = ''-app-build-'' @ suffix)"
    for t
    by (simp only: lang.simps(5,6) lang_lit) blast
  show ?thesis
    unfolding BUILD_BODY_def spec_build_name_def lang_three_segments tail by blast
qed

lemma lang_REVIEW_BODY: "s \<in> lang REVIEW_BODY \<longleftrightarrow> spec_review_name s"
  unfolding REVIEW_BODY_def spec_review_name_def lang_three_segments lang_lit by blast

lemma re_match_iff:
  "re_match (Anchored r) s \<longleftrightarrow> s \<in> lang r \<or> (\<exists>w. s = w @ [NEWLINE] \<and> w \<in> lang r)"
proof -
  have "(s \<noteq> [] \<and> last s = NEWLINE \<and> butlast s \<in> lang r)
          \<longleftrightarrow> (\<exists>w. s = w @ [NEWLINE] \<and> w \<in> lang r)"
    by (metis append_butlast_last_id butlast_snoc last_snoc snoc_eq_iff_butlast)
  then show ?thesis by (simp add: full_match_lang)
qed

subsection \<open>Lowercasing and the generated names\<close>

lemma lower_char_idem: "lower_char (lower_char c) = lower_char c"
proof (cases "(65 \<le> ord c \<and> ord c \<le> 90) \<or> (192 \<le> ord c \<and> ord c \<le> 222 \<and> ord c \<noteq> 215)")
  case True
  define d where "d = char_of (ord c + 32)"
  from True have "ord c + 32 < 256" by auto
  then have "ord d = ord c + 32" unfolding d_def by (rule ord_char_of)
  with True have "\<not> ((65 \<le> ord d \<and> ord d \<le> 90) \<or> (192 \<le> ord d \<and> ord d \<le> 222 \<and> ord d \<noteq> 215))"
    by auto
  then have "lower_char d = d" by (simp only: lower_char_def if_False)
  moreover from True have "lower_char c = d" by (simp only: lower_char_def d_def if_True)
  ultimately show ?thesis by simp
next
  case False
  then have "lower_char c = c" by (simp only: lower_char_def if_False)
  then show ?thesis by simp
qed

lemma lower_idem: "lower (lower s) = lower s"
  by (simp add: lower_def lower_char_idem)

lemma generate_pipeline_names_eq:
  "generate_pipeline_names vcs language framework =
     Inr (lower vcs @ ''-'' @ lower language @ ''-'' @ lower framework @ ''-app-build-default'',
          lower vcs @ ''-'' @ lower language @ ''-'' @ lower framework @ ''-app-review'')"
  by (simp only: generate_pipeline_names_def format_build format_review sum.case)

subsection \<open>What the two validators accept\<close>

lemma spec_build_name_last: "spec_build_name s \<Longrightarrow> last s = CHR ''t'' \<or> last s = CHR ''p''"
  unfolding spec_build_name_def by auto

lemma spec_review_name_last: "spec_review_name s \<Longrightarrow> last s = CHR ''w''"
  unfolding spec_review_name_def by auto

lemma re_match_BUILD_REGEX:
  "re_match BUILD_REGEX s \<longleftrightarrow> spec_build_name s \<or> (\<exists>w. s = w @ [NEWLINE] \<and> spec_build_name w)"
  by (simp only: BUILD_REGEX_def re_match_iff lang_BUILD_BODY)

lemma re_match_REVIEW_REGEX:
  "re_match REVIEW_REGEX s \<longleftrightarrow> spec_review_name s \<or> (\<exists>w. s = w @ [NEWLINE] \<and> spec_review_name w)"
  by (simp only: REVIEW_REGEX_def re_match_iff lang_REVIEW_BODY)

lemma spec_names_disjoint: "\<not> (spec_build_name s \<and> spec_review_name s)"
  using spec_build_name_last [of s] spec_review_name_last [of s] by auto

lemma regexes_disjoint: "\<not> (re_match BUILD_REGEX s \<and> re_match REVIEW_REGEX s)"
proof
  assume a: "re_match BUILD_REGEX s \<and> re_match REVIEW_REGEX s"
  show False
  proof (cases "s \<noteq> [] \<and> last s = NEWLINE")
    case True
    then have s: "s = butlast s @ [NEWLINE]" by (metis append_butlast_last_id)
    have nb: "\<not> spec_build_name s" using spec_build_name_last [of s] True by (auto simp: NEWLINE_def)
    have nr: "\<not> spec_review_name s" using spec_review_name_last [of s] True by (auto simp: NEWLINE_def)
    from a nb obtain w where "s = w @ [NEWLINE]" "spec_build_name w"
      unfolding re_match_BUILD_REGEX by blast
    then have b: "spec_build_name (butlast s)" by simp
    from a nr obtain w' where "s = w' @ [NEWLINE]" "spec_review_name w'"
      unfolding re_match_REVIEW_REGEX by blast
    then have "spec_review_name (butlast s)" by simp
    with b show False using spec_names_disjoint by blast
  next
    case False
    then have "\<not> (\<exists>w. s = w @ [NEWLINE])" by auto
    with a have "spec_build_name s \<and> spec_review_name s"
      unfolding re_match_BUILD_REGEX re_match_REVIEW_REGEX by blast
    then show False using spec_names_disjoint by blast
  qed
qed

lemma validate_component_iff:
  "fst (validate_component s label) \<longleftrightarrow>
     spec_component s \<or> (\<exists>w. s = w @ [NEWLINE] \<and> spec_component w)"
proof (cases "s = []")
  case True
  then show ?thesis by (simp add: validate_component_def spec_component_def)
next
  case False
  have "re_match (Anchored (Rep1 (In COMPONENT_CLASS))) s \<longleftrightarrow>
      spec_component s \<or> (\<exists>w. s = w @ [NEWLINE] \<and> spec_component w)"
    by (simp only: re_match_iff lang_component)
  with False show ?thesis
    by (simp add: validate_component_def del: re_match.simps)
qed

lemma validate_pipeline_name_exact:
  "validate_pipeline_name name =
     (if spec_build_name name \<or> (\<exists>w. name = w @ [NEWLINE] \<and> spec_build_name w)
        then (True, Some ''build'')
      else if spec_review_name name \<or> (\<exists>w. name = w @ [NEWLINE] \<and> spec_review_name w)
        then (True, Some ''review'')
      else (False, None))"
  by (simp only: validate_pipeline_name_def re_match_BUILD_REGEX re_match_REVIEW_REGEX)

subsection \<open>Validating generated names\<close>

lemma hyphen_not_alnum: "\<not> spec_alnum CHR ''-''"
  by (simp add: spec_alnum_def)

lemma spec_segment_iff: "spec_segment s \<longleftrightarrow> spec_component s \<and> CHR ''-'' \<notin> set s"
  using hyphen_not_alnum by (auto simp: spec_segment_def spec_component_def list_all_iff)

lemma lower_fixed: "spec_component s \<Longrightarrow> lower s = s"
  unfolding lower_def spec_component_def list_all_iff
  by (intro map_idI) (simp add: lower_char_fixed)

lemma count_hyphen_segment: "spec_segment s \<Longrightarrow> count_list s CHR ''-'' = 0"
  by (simp add: spec_segment_iff)

lemma count_hyphen_build: "spec_build_name s \<Longrightarrow> count_list s CHR ''-'' = 5"
  unfolding spec_build_name_def by (auto simp: count_hyphen_segment)

lemma count_hyphen_review: "spec_review_name s \<Longrightarrow> count_list s CHR ''-'' = 4"
  unfolding spec_review_name_def by (auto simp: count_hyphen_segment)

lemma count_hyphen_lower: "count_list (lower s) CHR ''-'' = count_list s CHR ''-''"
  by (induction s) (simp_all add: lower_def lower_char_hyphen)

lemma count_hyphen_pos: "CHR ''-'' \<in> set s \<Longrightarrow> 0 < count_list s CHR ''-''"
  by (induction s) auto

lemma not_newline_snoc: "s \<noteq> [] \<Longrightarrow> last s \<noteq> NEWLINE \<Longrightarrow> \<not> (\<exists>w. s = w @ [NEWLINE])"
  by auto

lemma generated_build_name_hyphens:
  assumes "CHR ''-'' \<in> set v \<or> CHR ''-'' \<in> set l \<or> CHR ''-'' \<in> set f"
  shows "validate_pipeline_name
           (lower v @ ''-'' @ lower l @ ''-'' @ lower f @ ''-app-build-default'') = (False, None)"
proof -
  let ?b = "lower v @ ''-'' @ lower l @ ''-'' @ lower f @ ''-app-build-default''"
  from assms have "0 < count_list v CHR ''-'' + count_list l CHR ''-'' + count_list f CHR ''-''"
    using count_hyphen_pos [of v] count_hyphen_pos [of l] count_hyphen_pos [of f] by auto
  then have c: "5 < count_list ?b CHR ''-''" by (simp add: count_hyphen_lower)
  have l: "last ?b = CHR ''t''" by simp
  have n: "\<not> (\<exists>w. ?b = w @ [NEWLINE])"
    by (rule not_newline_snoc) (simp_all add: NEWLINE_def)
  have "\<not> spec_build_name ?b" using count_hyphen_build [of ?b] c by auto
  with n have 1: "\<not> re_match BUILD_REGEX ?b" unfolding re_match_BUILD_REGEX by blast
  have "\<not> spec_review_name ?b" using spec_review_name_last [of ?b] l by auto
  with n have 2: "\<not> re_match REVIEW_REGEX ?b" unfolding re_match_REVIEW_REGEX by blast
  from 1 2 show ?thesis by (simp only: validate_pipeline_name_def if_False)
qed

lemma generated_review_name_hyphens:
  assumes "CHR ''-'' \<in> set v \<or> CHR ''-'' \<in> set l \<or> CHR ''-'' \<in> set f"
  shows "validate_pipeline_name
           (lower v @ ''-'' @ lower l @ ''-'' @ lower f @ ''-app-review'') = (False, None)"
proof -
  let ?r = "lower v @ ''-'' @ lower l @ ''-'' @ lower f @ ''-app-review''"
  from assms have "0 < count_list v CHR ''-'' + count_list l CHR ''-'' + count_list f CHR ''-''"
    using count_hyphen_pos [of v] count_hyphen_pos [of l] count_hyphen_pos [of f] by auto
  then have c: "4 < count_list ?r CHR ''-''" by (simp add: count_hyphen_lower)
  have l: "last ?r = CHR ''w''" by simp
  have n: "\<not> (\<exists>w. ?r = w @ [NEWLINE])"
    by (rule not_newline_snoc) (simp_all add: NEWLINE_def)
  have "\<not> spec_review_name ?r" using count_hyphen_review [of ?r] c by auto
  with n have 2: "\<not> re_match REVIEW_REGEX ?r" unfolding re_match_REVIEW_REGEX by blast
  have "\<not> spec_build_name ?r" using spec_build_name_last [of ?r] l by auto
  with n have 1: "\<not> re_match BUILD_REGEX ?r" unfolding re_match_BUILD_REGEX by blast
  from 1 2 show ?thesis by (simp only: validate_pipeline_name_def if_False)
qed

lemma generated_names_segments:
  assumes "spec_segment v" "spec_segment l" "spec_segment f"
  shows "validate_pipeline_name
           (lower v @ ''-'' @ lower l @ ''-'' @ lower f @ ''-app-build-default'') = (True, Some ''build'')"
    and "validate_pipeline_name
           (lower v @ ''-'' @ lower l @ ''-'' @ lower f @ ''-app-review'') = (True, Some ''review'')"
proof -
  from assms have lo: "lower v = v" "lower l = l" "lower f = f"
    by (simp_all add: spec_segment_iff lower_fixed)
  from assms have b: "spec_build_name (v @ ''-'' @ l @ ''-'' @ f @ ''-app-build-default'')"
    unfolding spec_build_name_def
    by (intro exI [of _ v] exI [of _ l] exI [of _ f] exI [of _ "''default''"]) simp
  from assms have r: "spec_review_name (v @ ''-'' @ l @ ''-'' @ f @ ''-app-review'')"
    unfolding spec_review_name_def
    by (intro exI [of _ v] exI [of _ l] exI [of _ f]) simp
  then have nb: "\<not> re_match BUILD_REGEX (v @ ''-'' @ l @ ''-'' @ f @ ''-app-review'')"
    using regexes_disjoint re_match_REVIEW_REGEX by blast
  from b show "validate_pipeline_name
           (lower v @ ''-'' @ lower l @ ''-'' @ lower f @ ''-app-build-default'') = (True, Some ''build'')"
    by (simp only: lo validate_pipeline_name_def re_match_BUILD_REGEX simp_thms if_True)
  from r nb show "validate_pipeline_name
           (lower v @ ''-'' @ lower l @ ''-'' @ lower f @ ''-app-review'') = (True, Some ''review'')"
    by (simp only: lo validate_pipeline_name_def re_match_REVIEW_REGEX simp_thms if_True if_False)
qed

subsection \<open>What \<open>sys.stdout\<close> can write\<close>

lemma encodes_ascii_iff: "encodes_ascii enc \<longleftrightarrow> (\<forall>n<128. enc n)"
  by (simp only: encodes_ascii_def list_all_iff set_upt) auto

lemma encodes_ascii_ASCII: "encodes_ascii ASCII"
  by (simp add: encodes_ascii_iff ASCII_def)

lemma encodes_ascii_UTF_8: "encodes_ascii UTF_8"
  by (simp add: encodes_ascii_iff UTF_8_def)

lemma is_ascii_append: "is_ascii (a @ b) \<longleftrightarrow> is_ascii a \<and> is_ascii b"
  by (simp add: is_ascii_def)

lemma is_ascii_Cons: "is_ascii (c # t) \<longleftrightarrow> ord c < 128 \<and> is_ascii t"
  by (simp add: is_ascii_def)

lemma is_ascii_Nil: "is_ascii []"
  by (simp add: is_ascii_def)

lemma writable_ascii:
  assumes "encodes_ascii enc" and "is_ascii t"
  shows "writable enc (Plain t)" and "writable enc (Glyph n t) \<longleftrightarrow> enc n"
  using assms by (auto simp: encodes_ascii_iff is_ascii_def list_all_iff)

lemma spec_alnum_ascii: "spec_alnum c \<or> c = CHR ''-'' \<Longrightarrow> ord c < 128"
  by (auto simp: spec_alnum_def ord_def)

lemma spec_component_ascii: "spec_component s \<Longrightarrow> is_ascii s"
  by (auto simp: spec_component_def is_ascii_def list_all_iff spec_alnum_ascii)

lemma spec_segment_ascii: "spec_segment s \<Longrightarrow> is_ascii s"
  by (simp add: spec_segment_iff spec_component_ascii)

lemma is_ascii_NEWLINE: "is_ascii [NEWLINE]"
  by (simp add: is_ascii_def NEWLINE_def ord_def)

lemma validated_component_ascii: "fst (validate_component s label) \<Longrightarrow> is_ascii s"
  unfolding validate_component_iff
  using spec_component_ascii is_ascii_NEWLINE by (auto simp: is_ascii_append)

lemma lower_char_ascii: "ord c < 128 \<Longrightarrow> ord (lower_char c) < 128"
proof (cases "65 \<le> ord c \<and> ord c \<le> 90")
  case True
  then have "ord (char_of (ord c + 32)) = ord c + 32" by (intro ord_char_of) simp
  with True show ?thesis by (simp add: lower_char_def)
next
  case False
  assume "ord c < 128"
  with False show ?thesis by (auto simp: lower_char_def)
qed

lemma lower_ascii: "is_ascii s \<Longrightarrow> is_ascii (lower s)"
  by (simp add: is_ascii_def lower_def list_all_iff lower_char_ascii)

lemma spec_build_name_ascii: "spec_build_name s \<Longrightarrow> is_ascii s"
proof -
  have lits: "is_ascii ''-''" "is_ascii ''-app-build-''" "is_ascii ''default''" "is_ascii ''edp''"
    by (simp_all add: is_ascii_def ord_def)
  assume "spec_build_name s"
  then obtain v l f suffix where "spec_segment v" "spec_segment l" "spec_segment f"
    "suffix = ''default'' \<or> suffix = ''edp''"
    "s = v @ ''-'' @ l @ ''-'' @ f @ ''-app-build-'' @ suffix"
    unfolding spec_build_name_def by blast
  with lits show ?thesis
    by (auto simp only: is_ascii_append spec_segment_ascii)
qed

lemma spec_review_name_ascii: "spec_review_name s \<Longrightarrow> is_ascii s"
proof -
  have lits: "is_ascii ''-''" "is_ascii ''-app-review''"
    by (simp_all add: is_ascii_def ord_def)
  assume "spec_review_name s"
  then obtain v l f where "spec_segment v" "spec_segment l" "spec_segment f"
    "s = v @ ''-'' @ l @ ''-'' @ f @ ''-app-review''"
    unfolding spec_review_name_def by blast
  with lits show ?thesis
    by (auto simp only: is_ascii_append spec_segment_ascii)
qed

lemma valid_name_ascii: "fst (validate_pipeline_name name) \<Longrightarrow> is_ascii name"
proof -
  assume "fst (validate_pipeline_name name)"
  then have "re_match BUILD_REGEX name \<or> re_match REVIEW_REGEX name"
    by (auto simp: validate_pipeline_name_def split: if_splits)
  then consider "spec_build_name name" | w where "name = w @ [NEWLINE]" "spec_build_name w"
    | "spec_review_name name" | w where "name = w @ [NEWLINE]" "spec_review_name w"
    unfolding re_match_BUILD_REGEX re_match_REVIEW_REGEX by blast
  then show ?thesis
    using spec_build_name_ascii spec_review_name_ascii is_ascii_NEWLINE
    by cases (auto simp only: is_ascii_append)
qed

lemma valid_name_type:
  "fst (validate_pipeline_name name) \<Longrightarrow>
     snd (validate_pipeline_name name) = Some ''build'' \<or> snd (validate_pipeline_name name) = Some ''review''"
  by (auto simp: validate_pipeline_name_def split: if_splits)

lemma is_ascii_texts:
  "is_ascii DOC"
  "is_ascii ONBOARDING"
  "is_ascii ''Usage: generate-pipeline.py --validate <pipeline-name>''"
  "is_ascii ''Usage: generate-pipeline.py <vcs> <language> <framework>''"
  by code_simp+

subsection \<open>Runs of \<open>main\<close>\<close>

lemma printing_nothing: "stdout r = [] \<Longrightarrow> printing enc r = Inr r"
  by (simp add: printing_def)

lemma main_generation_mode_rejects:
  assumes "vcs \<noteq> ''--validate''"
    and "\<not> fst (validate_vcs vcs) \<or> \<not> fst (validate_component language ''language'')
         \<or> \<not> fst (validate_component framework ''framework'')"
  shows "\<exists>r. main enc [prog, vcs, language, framework] = Inr r
           \<and> exit_code r = 1 \<and> stdout r = [] \<and> stderr r \<noteq> []"
proof -
  have ne: "snd (validate_component s label) \<noteq> []" if "\<not> fst (validate_component s label)"
    for s label
    using that by (simp add: validate_component_def split: if_splits)
  have nv: "snd (validate_vcs vcs) \<noteq> []" if "\<not> fst (validate_vcs vcs)"
    using that ne [of vcs "''VCS''"] by (simp add: validate_vcs_def split_beta)
  show ?thesis
    using assms ne [of language "''language''"] ne [of framework "''framework''"] nv
    by (cases "validate_vcs vcs"; cases "validate_component language ''language''";
        cases "validate_component framework ''framework''")
       (auto simp: main_def printing_nothing generate_pipeline_names_eq)
qed

lemma validate_vcs_fst: "fst (validate_vcs vcs) = fst (validate_component vcs ''VCS'')"
  by (simp add: validate_vcs_def split_beta)

lemma generation_output_writable:
  assumes enc: "encodes_ascii enc"
    and ok: "is_ascii vcs" "is_ascii build_name" "is_ascii review_name"
  shows "list_all (writable enc)
           [Plain ''Generated pipeline names:'',
            Plain (''  Build:  '' @ build_name),
            Plain (''  Review: '' @ review_name),
            Plain [],
            Plain ''Onboarding commands:'',
            Plain (ONBOARDING @ ''--type build-pipeline -n '' @ build_name @ '' --vcs '' @ vcs),
            Plain (ONBOARDING @ ''--type review-pipeline -n '' @ review_name @ '' --vcs '' @ vcs)]"
proof -
  have lits: "is_ascii ''Generated pipeline names:''" "is_ascii ''  Build:  ''"
    "is_ascii ''  Review: ''" "is_ascii []" "is_ascii ''Onboarding commands:''"
    "is_ascii ''--type build-pipeline -n ''" "is_ascii ''--type review-pipeline -n ''"
    "is_ascii '' --vcs ''"
    by (simp_all add: is_ascii_def ord_def)
  have "is_ascii (''  Build:  '' @ build_name)" "is_ascii (''  Review: '' @ review_name)"
    "is_ascii (ONBOARDING @ ''--type build-pipeline -n '' @ build_name @ '' --vcs '' @ vcs)"
    "is_ascii (ONBOARDING @ ''--type review-pipeline -n '' @ review_name @ '' --vcs '' @ vcs)"
    using ok lits is_ascii_texts(2) by (simp_all only: is_ascii_append simp_thms)
  with lits show ?thesis
    using writable_ascii(1) [OF enc] by (simp del: writable.simps)
qed

lemma generated_names_ascii:
  assumes "is_ascii vcs" "is_ascii language" "is_ascii framework"
  shows "is_ascii (lower vcs @ ''-'' @ lower language @ ''-'' @ lower framework @ ''-app-build-default'')"
    and "is_ascii (lower vcs @ ''-'' @ lower language @ ''-'' @ lower framework @ ''-app-review'')"
proof -
  have lits: "is_ascii ''-''" "is_ascii ''-app-build-default''" "is_ascii ''-app-review''"
    by (simp_all add: is_ascii_def ord_def)
  from assms have "is_ascii (lower vcs)" "is_ascii (lower language)" "is_ascii (lower framework)"
    by (simp_all add: lower_ascii)
  with lits show "is_ascii (lower vcs @ ''-'' @ lower language @ ''-'' @ lower framework @ ''-app-build-default'')"
    and "is_ascii (lower vcs @ ''-'' @ lower language @ ''-'' @ lower framework @ ''-app-review'')"
    by (simp_all only: is_ascii_append simp_thms)
qed

lemma main_generation_mode_accepts:
  assumes "encodes_ascii enc" and "vcs \<noteq> ''--validate''"
    and "fst (validate_vcs vcs)" "fst (validate_component language ''language'')"
      "fst (validate_component framework ''framework'')"
  shows "\<exists>r build_name review_name. main enc [prog, vcs, language, framework] = Inr r
           \<and> generate_pipeline_names vcs language framework = Inr (build_name, review_name)
           \<and> exit_code r = 0
           \<and> stdout r ! 1 = Plain (''  Build:  '' @ build_name)
           \<and> stdout r ! 2 = Plain (''  Review: '' @ review_name)"
proof -
  from assms have a: "is_ascii vcs" "is_ascii language" "is_ascii framework"
    by (simp_all add: validate_vcs_fst validated_component_ascii)
  note w = generation_output_writable [OF assms(1) a(1) generated_names_ascii [OF a]]
  show ?thesis
    using assms(2-) w
    by (cases "validate_vcs vcs"; cases "validate_component language ''language''";
        cases "validate_component framework ''framework''")
       (simp add: main_def printing_def generate_pipeline_names_eq del: writable.simps)
qed

lemma main_generation_mode_by_tokens:
  assumes "encodes_ascii enc" and "vcs \<noteq> ''--validate''"
  shows "\<exists>r. main enc [prog, vcs, language, framework] = Inr r
           \<and> (exit_code r = 0 \<or> exit_code r = 1)
           \<and> (exit_code r = 0 \<longleftrightarrow>
                (\<forall>t \<in> set [vcs, language, framework].
                   spec_component t \<or> (\<exists>w. t = w @ [NEWLINE] \<and> spec_component w)))"
proof (cases "fst (validate_vcs vcs) \<and> fst (validate_component language ''language'')
               \<and> fst (validate_component framework ''framework'')")
  case True
  with assms obtain r where "main enc [prog, vcs, language, framework] = Inr r" "exit_code r = 0"
    using main_generation_mode_accepts [of enc vcs language framework prog] by blast
  moreover from True have "\<forall>t \<in> set [vcs, language, framework].
                   spec_component t \<or> (\<exists>w. t = w @ [NEWLINE] \<and> spec_component w)"
    by (simp add: validate_vcs_fst validate_component_iff)
  ultimately show ?thesis by blast
next
  case False
  with assms obtain r where "main enc [prog, vcs, language, framework] = Inr r" "exit_code r = 1"
    using main_generation_mode_rejects [of vcs language framework enc prog] by blast
  moreover from False have "\<not> (\<forall>t \<in> set [vcs, language, framework].
                   spec_component t \<or> (\<exists>w. t = w @ [NEWLINE] \<and> spec_component w))"
    by (simp add: validate_vcs_fst validate_component_iff)
  ultimately show ?thesis by auto
qed

lemma main_validate_valid:
  assumes "validate_pipeline_name name = (True, Some t)"
  shows "main enc [prog, ''--validate'', name] =
     printing enc \<lparr>exit_code = 0,
       stdout = [Glyph 0x2713 ('' Valid '' @ t @ '' pipeline name: '' @ name)], stderr = []\<rparr>"
  by (simp add: main_def assms del: writable.simps)

lemma main_validate_invalid:
  assumes "\<not> fst (validate_pipeline_name name)"
  shows "main enc [prog, ''--validate'', name] =
     Inr \<lparr>exit_code = 1, stdout = [],
       stderr = [Glyph 0x2717 ('' Invalid pipeline name: '' @ name),
                 Plain ([NEWLINE] @ ''Expected formats:''),
                 Plain ''  Build:  <vcs>-<language>-<framework>-app-build-default'',
                 Plain ''  Review: <vcs>-<language>-<framework>-app-review'']\<rparr>"
  using assms
  by (cases "validate_pipeline_name name") (simp add: main_def printing_def)

lemma main_validation_mode:
  assumes "encodes_ascii enc"
  shows "fst (validate_pipeline_name name) \<and> enc 0x2713 \<longrightarrow>
           (\<exists>r. main enc [prog, ''--validate'', name] = Inr r \<and> exit_code r = 0)"
    and "fst (validate_pipeline_name name) \<and> \<not> enc 0x2713 \<longrightarrow>
           main enc [prog, ''--validate'', name] = Inl UnicodeEncodeError"
    and "\<not> fst (validate_pipeline_name name) \<longrightarrow>
           (\<exists>r. main enc [prog, ''--validate'', name] = Inr r \<and> exit_code r = 1 \<and> stdout r = [])"
proof -
  have lits: "is_ascii '' Valid ''" "is_ascii '' pipeline name: ''" "is_ascii ''build''"
    "is_ascii ''review''"
    by (simp_all add: is_ascii_def ord_def)
  have valid: "\<exists>t. main enc [prog, ''--validate'', name] =
        (if enc 0x2713
         then Inr \<lparr>exit_code = 0,
                stdout = [Glyph 0x2713 ('' Valid '' @ t @ '' pipeline name: '' @ name)],
                stderr = []\<rparr>
         else Inl UnicodeEncodeError)"
    if v: "fst (validate_pipeline_name name)"
  proof -
    from v valid_name_type [of name] obtain t
      where t: "validate_pipeline_name name = (True, Some t)" "t = ''build'' \<or> t = ''review''"
      by (cases "validate_pipeline_name name") auto
    from t(2) lits valid_name_ascii [OF v]
    have "is_ascii ('' Valid '' @ t @ '' pipeline name: '' @ name)"
      by (auto simp only: is_ascii_append)
    then have "writable enc (Glyph 0x2713 ('' Valid '' @ t @ '' pipeline name: '' @ name))
        \<longleftrightarrow> enc 0x2713"
      by (rule writable_ascii(2) [OF assms])
    then show ?thesis
      unfolding main_validate_valid [OF t(1)]
      by (intro exI [of _ t]) (simp add: printing_def del: writable.simps)
  qed
  show "fst (validate_pipeline_name name) \<and> enc 0x2713 \<longrightarrow>
           (\<exists>r. main enc [prog, ''--validate'', name] = Inr r \<and> exit_code r = 0)"
    using valid by auto
  show "fst (validate_pipeline_name name) \<and> \<not> enc 0x2713 \<longrightarrow>
           main enc [prog, ''--validate'', name] = Inl UnicodeEncodeError"
    using valid by auto
  show "\<not> fst (validate_pipeline_name name) \<longrightarrow>
           (\<exists>r. main enc [prog, ''--validate'', name] = Inr r \<and> exit_code r = 1 \<and> stdout r = [])"
    by (simp add: main_validate_invalid)
qed

lemma main_usage:
  assumes "encodes_ascii enc"
  shows "length argv < 2 \<longrightarrow>
        main enc argv = Inr \<lparr>exit_code = 1, stdout = [Plain DOC], stderr = []\<rparr>"
    and "2 \<le> length argv \<and> argv ! 1 = ''--validate'' \<and> length argv \<noteq> 3 \<longrightarrow>
        main enc argv = Inr \<lparr>exit_code = 1,
          stdout = [Plain ''Usage: generate-pipeline.py --validate <pipeline-name>''],
          stderr = []\<rparr>"
    and "2 \<le> length argv \<and> argv ! 1 \<noteq> ''--validate'' \<and> length argv \<noteq> 4 \<longrightarrow>
        main enc argv = Inr \<lparr>exit_code = 1,
          stdout = [Plain ''Usage: generate-pipeline.py <vcs> <language> <framework>''],
          stderr = []\<rparr>"
  using writable_ascii(1) [OF assms is_ascii_texts(1)]
    writable_ascii(1) [OF assms is_ascii_texts(3)]
    writable_ascii(1) [OF assms is_ascii_texts(4)]
  by (simp_all add: main_def printing_def del: writable.simps)

lemma main_end_to_end:
  assumes "encodes_ascii enc"
  shows "\<exists>r. main enc [''generate-pipeline.py'', ''gitlab'', ''python'', ''fastapi''] = Inr r
      \<and> exit_code r = 0 \<and> stderr r = []
      \<and> stdout r ! 1 = Plain ''  Build:  gitlab-python-fastapi-app-build-default''
      \<and> stdout r ! 2 = Plain ''  Review: gitlab-python-fastapi-app-review''"
proof -
  have 1: "validate_vcs ''gitlab'' = (True, [])" by code_simp
  have 2: "validate_component ''python'' ''language'' = (True, [])" by code_simp
  have 3: "validate_component ''fastapi'' ''framework'' = (True, [])" by code_simp
  have 4: "generate_pipeline_names ''gitlab'' ''python'' ''fastapi''
      = Inr (''gitlab-python-fastapi-app-build-default'', ''gitlab-python-fastapi-app-review'')"
    by code_simp
  have "is_ascii ''gitlab''" "is_ascii ''gitlab-python-fastapi-app-build-default''"
    "is_ascii ''gitlab-python-fastapi-app-review''"
    by (simp_all add: is_ascii_def ord_def)
  note w = generation_output_writable [OF assms this]
  show ?thesis
    using w by (simp add: main_def Let_def printing_def 1 2 3 4 del: writable.simps)
qed

lemma main_trailing_newline_run:
  assumes "encodes_ascii enc"
  shows "\<exists>r. main enc [''generate-pipeline.py'', ''gitlab'', ''python'' @ [NEWLINE], ''fastapi''] = Inr r
      \<and> exit_code r = 0 \<and> stderr r = []
      \<and> stdout r ! 1 = Plain (''  Build:  gitlab-'' @ (''python'' @ [NEWLINE]) @ ''-fastapi-app-build-default'')
      \<and> stdout r ! 2 = Plain (''  Review: gitlab-'' @ (''python'' @ [NEWLINE]) @ ''-fastapi-app-review'')"
proof -
  define token where "token = ''python'' @ [NEWLINE]"
  have 1: "validate_vcs ''gitlab'' = (True, [])" by code_simp
  have 2: "validate_component token ''language'' = (True, [])"
    unfolding token_def by code_simp
  have 3: "validate_component ''fastapi'' ''framework'' = (True, [])" by code_simp
  have "lower token = token" unfolding token_def by code_simp
  moreover have "lower ''gitlab'' = ''gitlab''" "lower ''fastapi'' = ''fastapi''" by code_simp+
  ultimately have 4: "generate_pipeline_names ''gitlab'' token ''fastapi''
      = Inr (''gitlab-'' @ token @ ''-fastapi-app-build-default'',
             ''gitlab-'' @ token @ ''-fastapi-app-review'')"
    by (simp add: generate_pipeline_names_eq)
  have t: "is_ascii token" by (simp add: token_def is_ascii_def ord_def NEWLINE_def)
  have "is_ascii ''gitlab''" "is_ascii (''gitlab-'' @ token @ ''-fastapi-app-build-default'')"
    "is_ascii (''gitlab-'' @ token @ ''-fastapi-app-review'')"
    using t by (simp_all add: is_ascii_append is_ascii_Cons is_ascii_Nil ord_def)
  note w = generation_output_writable [OF assms this]
  show ?thesis
    unfolding token_def [symmetric]
    using w by (simp add: main_def Let_def printing_def 1 2 3 4 del: writable.simps)
qed

section \<open>The claims\<close>

text \<open>
  C3. For every three strings, \<open>generate_pipeline_names\<close> returns the pair of the two
  templates filled with the lowercased tokens, build name first: it never fails, it checks
  nothing about its arguments, and arguments that differ only in case give the same pair.
\<close>

theorem generate_pipeline_names_lowercased_templates:
  "generate_pipeline_names vcs language framework =
     Inr (lower vcs @ ''-'' @ lower language @ ''-'' @ lower framework @ ''-app-build-default'',
          lower vcs @ ''-'' @ lower language @ ''-'' @ lower framework @ ''-app-review'')
   \<and> generate_pipeline_names (lower vcs) (lower language) (lower framework)
       = generate_pipeline_names vcs language framework"
  by (simp only: generate_pipeline_names_eq lower_idem)

theorem generate_pipeline_names_lowercased_templates_witness:
  "generate_pipeline_names ''GitHub'' ''Java'' ''SpringBoot'' =
     Inr (''github-java-springboot-app-build-default'', ''github-java-springboot-app-review'')
   \<and> generate_pipeline_names [] [] [] = Inr (''---app-build-default'', ''---app-review'')"
proof -
  have "lower ''GitHub'' = ''github''" "lower ''Java'' = ''java''"
    "lower ''SpringBoot'' = ''springboot''" "lower [] = []"
    by code_simp+
  then show ?thesis
    using generate_pipeline_names_lowercased_templates [of "''GitHub''" "''Java''" "''SpringBoot''"]
      generate_pipeline_names_lowercased_templates [of "[]" "[]" "[]"]
    by simp
qed

text \<open>
  C5. Boundary cases of \<open>validate_pipeline_name\<close>: the \<open>-app-build-default\<close> and
  \<open>-app-build-edp\<close> names are build names, the \<open>-app-review\<close> name is a review name, and
  \<open>-app-build-custom\<close> is rejected.
\<close>

theorem validate_pipeline_name_boundary_cases:
  "validate_pipeline_name ''github-java-springboot-app-build-default'' = (True, Some ''build'')
   \<and> validate_pipeline_name ''github-java-springboot-app-build-edp'' = (True, Some ''build'')
   \<and> validate_pipeline_name ''github-java-springboot-app-review'' = (True, Some ''review'')
   \<and> validate_pipeline_name ''github-java-springboot-app-build-custom'' = (False, None)"
  by code_simp





text \<open>
  C9. The two patterns exclude each other, both as \<open>re.match\<close> applies them and as sets
  of whole names, so the kind \<open>validate_pipeline_name\<close> returns does not depend on which
  pattern is tried first.
\<close>

theorem patterns_mutually_exclusive:
  "\<not> (re_match BUILD_REGEX name \<and> re_match REVIEW_REGEX name)
   \<and> \<not> (spec_build_name name \<and> spec_review_name name)
   \<and> validate_pipeline_name name =
       (if re_match REVIEW_REGEX name then (True, Some ''review'')
        else if re_match BUILD_REGEX name then (True, Some ''build'')
        else (False, None))"
  using regexes_disjoint [of name] spec_names_disjoint [of name]
  by (auto simp: validate_pipeline_name_def)

theorem patterns_mutually_exclusive_witness:
  "re_match REVIEW_REGEX ''a-b-c-app-review'' \<and> \<not> re_match BUILD_REGEX ''a-b-c-app-review''
   \<and> validate_pipeline_name ''a-b-c-app-review'' = (True, Some ''review'')"
proof -
  have "re_match REVIEW_REGEX ''a-b-c-app-review''" by code_simp
  then show ?thesis
    using patterns_mutually_exclusive [of "''a-b-c-app-review''"] by simp
qed

text \<open>
  C1. \<open>validate_pipeline_name\<close> is claimed to classify a name by whether the whole of it
  matches the build pattern, else the review pattern, else neither. The theorem evaluates
  it on a review name followed by a newline: the name is not described by either pattern,
  yet it is reported as a valid review name, because \<open>$\<close> also holds before a final newline.
\<close>

theorem validate_pipeline_name_accepts_trailing_newline:
  "validate_pipeline_name (''github-java-springboot-app-review'' @ [NEWLINE]) = (True, Some ''review'')
   \<and> \<not> spec_review_name (''github-java-springboot-app-review'' @ [NEWLINE])
   \<and> \<not> spec_build_name (''github-java-springboot-app-review'' @ [NEWLINE])"
proof -
  have "validate_pipeline_name (''github-java-springboot-app-review'' @ [NEWLINE])
      = (True, Some ''review'')"
    by code_simp
  moreover have "\<not> spec_review_name (''github-java-springboot-app-review'' @ [NEWLINE])"
    using spec_review_name_last [of "''github-java-springboot-app-review'' @ [NEWLINE]"]
    by (auto simp: NEWLINE_def)
  moreover have "\<not> spec_build_name (''github-java-springboot-app-review'' @ [NEWLINE])"
    using spec_build_name_last [of "''github-java-springboot-app-review'' @ [NEWLINE]"]
    by (auto simp: NEWLINE_def)
  ultimately show ?thesis by blast
qed

text \<open>
  C2. \<open>validate_component\<close> is claimed to return true exactly for the non-empty strings of
  lowercase letters, digits and hyphens. The theorem evaluates it on \<open>java\<close> followed by a
  newline: the newline is outside that set, yet the result is true and nothing is printed.
\<close>

theorem validate_component_accepts_trailing_newline:
  "validate_component (''java'' @ [NEWLINE]) ''language'' = (True, [])
   \<and> \<not> spec_component (''java'' @ [NEWLINE])"
proof -
  have "validate_component (''java'' @ [NEWLINE]) ''language'' = (True, [])" by code_simp
  moreover have "\<not> spec_component (''java'' @ [NEWLINE])"
    by (simp add: spec_component_def spec_alnum_def NEWLINE_def)
  ultimately show ?thesis by blast
qed

text \<open>
  C4. Round trip. For component tokens (non-empty, of lowercase letters, digits and hyphens)
  that contain no hyphen, the generated build name validates as a build name and the
  generated review name as a review name. When the language or the framework token
  contains a hyphen, both generated names fail validation.
\<close>

theorem generated_names_round_trip:
  "(spec_component v \<and> CHR ''-'' \<notin> set v \<and> spec_component l \<and> CHR ''-'' \<notin> set l
      \<and> spec_component f \<and> CHR ''-'' \<notin> set f \<longrightarrow>
      (\<exists>build_name review_name.
         generate_pipeline_names v l f = Inr (build_name, review_name)
         \<and> validate_pipeline_name build_name = (True, Some ''build'')
         \<and> validate_pipeline_name review_name = (True, Some ''review'')))
   \<and> (CHR ''-'' \<in> set l \<or> CHR ''-'' \<in> set f \<longrightarrow>
      (\<exists>build_name review_name.
         generate_pipeline_names v l f = Inr (build_name, review_name)
         \<and> validate_pipeline_name build_name = (False, None)
         \<and> validate_pipeline_name review_name = (False, None)))"
proof (intro conjI impI)
  assume "spec_component v \<and> CHR ''-'' \<notin> set v \<and> spec_component l \<and> CHR ''-'' \<notin> set l
      \<and> spec_component f \<and> CHR ''-'' \<notin> set f"
  then have "spec_segment v" "spec_segment l" "spec_segment f"
    by (simp_all add: spec_segment_iff)
  then show "\<exists>build_name review_name.
         generate_pipeline_names v l f = Inr (build_name, review_name)
         \<and> validate_pipeline_name build_name = (True, Some ''build'')
         \<and> validate_pipeline_name review_name = (True, Some ''review'')"
    using generated_names_segments [of v l f] by (simp only: generate_pipeline_names_eq) blast
next
  assume "CHR ''-'' \<in> set l \<or> CHR ''-'' \<in> set f"
  then have "CHR ''-'' \<in> set v \<or> CHR ''-'' \<in> set l \<or> CHR ''-'' \<in> set f" by blast
  then show "\<exists>build_name review_name.
         generate_pipeline_names v l f = Inr (build_name, review_name)
         \<and> validate_pipeline_name build_name = (False, None)
         \<and> validate_pipeline_name review_name = (False, None)"
    using generated_build_name_hyphens [of v l f] generated_review_name_hyphens [of v l f]
    by (simp only: generate_pipeline_names_eq) blast
qed

theorem generated_names_round_trip_witness:
  "validate_pipeline_name ''gitlab-python-fastapi-app-build-default'' = (True, Some ''build'')
   \<and> validate_pipeline_name ''gitlab-python-fastapi-app-review'' = (True, Some ''review'')
   \<and> validate_pipeline_name ''github-node-js-npm-app-build-default'' = (False, None)
   \<and> validate_pipeline_name ''github-node-js-npm-app-review'' = (False, None)"
proof -
  have h1: "spec_component ''gitlab'' \<and> CHR ''-'' \<notin> set ''gitlab''
      \<and> spec_component ''python'' \<and> CHR ''-'' \<notin> set ''python''
      \<and> spec_component ''fastapi'' \<and> CHR ''-'' \<notin> set ''fastapi''"
    by (simp add: spec_component_def spec_alnum_def)
  have g1: "generate_pipeline_names ''gitlab'' ''python'' ''fastapi''
      = Inr (''gitlab-python-fastapi-app-build-default'', ''gitlab-python-fastapi-app-review'')"
    by code_simp
  have h2: "CHR ''-'' \<in> set ''node-js'' \<or> CHR ''-'' \<in> set ''npm''" by simp
  have g2: "generate_pipeline_names ''github'' ''node-js'' ''npm''
      = Inr (''github-node-js-npm-app-build-default'', ''github-node-js-npm-app-review'')"
    by code_simp
  from generated_names_round_trip [of "''gitlab''" "''python''" "''fastapi''"] h1
  obtain b r where "generate_pipeline_names ''gitlab'' ''python'' ''fastapi'' = Inr (b, r)"
    and "validate_pipeline_name b = (True, Some ''build'')"
    and "validate_pipeline_name r = (True, Some ''review'')"
    by blast
  with g1 have 1: "validate_pipeline_name ''gitlab-python-fastapi-app-build-default'' = (True, Some ''build'')"
    "validate_pipeline_name ''gitlab-python-fastapi-app-review'' = (True, Some ''review'')"
    by simp_all
  from generated_names_round_trip [of "''github''" "''node-js''" "''npm''"] h2
  obtain b' r' where "generate_pipeline_names ''github'' ''node-js'' ''npm'' = Inr (b', r')"
    and "validate_pipeline_name b' = (False, None)"
    and "validate_pipeline_name r' = (False, None)"
    by blast
  with g2 have 2: "validate_pipeline_name ''github-node-js-npm-app-build-default'' = (False, None)"
    "validate_pipeline_name ''github-node-js-npm-app-review'' = (False, None)"
    by simp_all
  from 1 2 show ?thesis by blast
qed

text \<open>
  C8. In validation mode \<open>main\<close> is claimed to end with exit code 0 exactly when
  \<open>validate_pipeline_name\<close> reports the name valid, and never through an exception. The
  theorem runs \<open>main\<close> on a valid build name with a \<open>sys.stdout\<close> that encodes ASCII only:
  the print of the verdict line, which starts with U+2713, raises \<open>UnicodeEncodeError\<close>,
  nothing catches it, and the exit status is 1. With a UTF-8 \<open>sys.stdout\<close> the same run
  ends with exit code 0.
\<close>

theorem main_valid_name_fails_on_ascii_stdout:
  "validate_pipeline_name ''github-java-springboot-app-build-default'' = (True, Some ''build'')
   \<and> main ASCII [''generate-pipeline.py'', ''--validate'', ''github-java-springboot-app-build-default'']
       = Inl UnicodeEncodeError
   \<and> exit_status
       (main ASCII [''generate-pipeline.py'', ''--validate'', ''github-java-springboot-app-build-default''])
       = 1
   \<and> (\<exists>r. main UTF_8 [''generate-pipeline.py'', ''--validate'', ''github-java-springboot-app-build-default'']
            = Inr r \<and> exit_code r = 0)"
proof -
  have v: "validate_pipeline_name ''github-java-springboot-app-build-default'' = (True, Some ''build'')"
    by code_simp
  have a: "\<not> ASCII 0x2713" by (simp add: ASCII_def)
  have u: "UTF_8 0x2713" by (simp add: UTF_8_def)
  from v a have 1: "main ASCII [''generate-pipeline.py'', ''--validate'', ''github-java-springboot-app-build-default'']
       = Inl UnicodeEncodeError"
    using main_validation_mode(2) [OF encodes_ascii_ASCII, of "''github-java-springboot-app-build-default''" "''generate-pipeline.py''"]
    by simp
  from v u have 2: "\<exists>r. main UTF_8 [''generate-pipeline.py'', ''--validate'', ''github-java-springboot-app-build-default'']
            = Inr r \<and> exit_code r = 0"
    using main_validation_mode(1) [OF encodes_ascii_UTF_8, of "''github-java-springboot-app-build-default''" "''generate-pipeline.py''"]
    by simp
  from 1 have 3: "exit_status
       (main ASCII [''generate-pipeline.py'', ''--validate'', ''github-java-springboot-app-build-default''])
       = 1"
    by (simp only: exit_status_def sum.case)
  from v 1 2 3 show ?thesis by blast
qed

text \<open>
  C7. In generation mode a component that is empty or holds a character other than a
  lowercase letter, a digit or a hyphen is claimed to end the run with exit code 1 before
  any name is printed. The theorem runs \<open>main\<close> with the language \<open>python\<close> followed by a
  newline, with a UTF-8 and with an ASCII \<open>sys.stdout\<close>: nothing is printed on the error
  stream, both names are printed with the newline inside them, and the exit code is 0.
\<close>

theorem main_generates_for_trailing_newline:
  "(\<exists>r. main UTF_8 [''generate-pipeline.py'', ''gitlab'', ''python'' @ [NEWLINE], ''fastapi''] = Inr r
      \<and> exit_code r = 0 \<and> stderr r = []
      \<and> stdout r ! 1 = Plain (''  Build:  gitlab-'' @ (''python'' @ [NEWLINE]) @ ''-fastapi-app-build-default'')
      \<and> stdout r ! 2 = Plain (''  Review: gitlab-'' @ (''python'' @ [NEWLINE]) @ ''-fastapi-app-review''))
   \<and> (\<exists>r. main ASCII [''generate-pipeline.py'', ''gitlab'', ''python'' @ [NEWLINE], ''fastapi''] = Inr r
      \<and> exit_code r = 0 \<and> stderr r = []
      \<and> stdout r ! 1 = Plain (''  Build:  gitlab-'' @ (''python'' @ [NEWLINE]) @ ''-fastapi-app-build-default'')
      \<and> stdout r ! 2 = Plain (''  Review: gitlab-'' @ (''python'' @ [NEWLINE]) @ ''-fastapi-app-review''))
   \<and> \<not> spec_component (''python'' @ [NEWLINE])"
proof -
  have "\<not> spec_component (''python'' @ [NEWLINE])"
    by (simp add: spec_component_def spec_alnum_def NEWLINE_def)
  then show ?thesis
    using main_trailing_newline_run [OF encodes_ascii_UTF_8]
      main_trailing_newline_run [OF encodes_ascii_ASCII]
    by blast
qed

end
